theory Spec2Isabelle
  imports Main "HOL-Library.Word"
begin

section \<open>The buffer manager of BadgerDB (buffer_modified.cpp)\<close>

text \<open>
  The class \<open>BufMgr\<close> keeps a pool of \<open>numBufs\<close> page frames, a descriptor per frame,
  a hash table from (file, page number) to frame, and the hand of the clock algorithm.
  Every member function of the source file becomes a function on a record of these
  fields. A member function that can throw returns a sum: \<open>Inl (e, s)\<close> is the exception
  \<open>e\<close> leaving the manager in state \<open>s\<close> (what was mutated before the \<open>throw\<close> stays
  mutated), \<open>Inr (v, s)\<close> is a normal return of \<open>v\<close>.
\<close>

subsection \<open>Data\<close>

text \<open>
  \<open>FrameId\<close> and \<open>PageId\<close> are \<open>std::uint32_t\<close>. A \<open>File*\<close> is an address; \<open>NULL\<close> is
  address 0. A \<open>Page*\<close> handed back to the caller either points at a slot of \<open>bufPool\<close>
  or is some other address (null, or whatever the caller's variable held).
\<close>

type_synonym FrameId = "32 word"
type_synonym PageId = "32 word"
type_synonym File_ptr = nat

definition NULL :: File_ptr where
  "NULL = 0"

datatype Page_ptr = Slot FrameId | Elsewhere

text \<open>
  Modelled from the spec: the class \<open>Page\<close> (page.h is not part of the sources at hand),
  "an opaque fixed-size byte container identified by a page number".
\<close>

record Page =
  page_number :: PageId
  contents :: string

text \<open>
  Modelled from the spec: \<open>Page::INVALID_NUMBER\<close>, the page number of a cleared
  descriptor ("clears file/page identity"), which is the number of no page of a file.
\<close>

definition INVALID_NUMBER :: PageId where
  "INVALID_NUMBER = 0"

text \<open>Modelled from the spec: a default-constructed \<open>Page\<close>, as \<open>new Page[bufs]\<close> makes them.\<close>

definition Page_default :: Page where
  "Page_default = \<lparr>page_number = INVALID_NUMBER, contents = []\<rparr>"

text \<open>
  Modelled from the spec: the class \<open>BufDesc\<close> (declared in buffer.h, not part of the
  sources at hand). Its fields are the ones buffer_modified.cpp reads and writes;
  \<open>pinCnt\<close> is "the number of active holders; \<open>\<ge> 0\<close>", a natural number.
\<close>

record BufDesc =
  file_p :: File_ptr
  pageNo :: PageId
  frameNo :: FrameId
  pinCnt :: nat
  dirty :: bool
  valid :: bool
  refbit :: bool

text \<open>
  Modelled from the spec: \<open>BufDesc::Clear()\<close>, the spec's reset: "sets valid=false,
  dirty=false, refBit=false, pinCount=0, clears file/page identity".
\<close>

definition BufDesc_Clear :: "BufDesc \<Rightarrow> BufDesc" where
  "BufDesc_Clear d =
     d\<lparr>pinCnt := 0, file_p := NULL, pageNo := INVALID_NUMBER,
       dirty := False, refbit := False, valid := False\<rparr>"

text \<open>
  Modelled from the spec: \<open>BufDesc::Set(file, pageNo)\<close>, the spec's install: "sets
  owningFile, pageNumber, valid=true, refBit=true, pinCount=1".
\<close>

definition BufDesc_Set :: "BufDesc \<Rightarrow> File_ptr \<Rightarrow> PageId \<Rightarrow> BufDesc" where
  "BufDesc_Set d filePtr pageNum =
     d\<lparr>file_p := filePtr, pageNo := pageNum, pinCnt := 1, valid := True, refbit := True\<rparr>"

text \<open>
  Modelled from the spec: a default-constructed \<open>BufDesc\<close>, as \<open>new BufDesc[bufs]\<close> makes
  them: "N frame descriptors (all invalid)", and an invalid frame "must have pinCount = 0,
  dirty = false, refBit = false".
\<close>

definition BufDesc_default :: BufDesc where
  "BufDesc_default =
     \<lparr>file_p = NULL, pageNo = INVALID_NUMBER, frameNo = 0, pinCnt = 0,
      dirty = False, valid = False, refbit = False\<rparr>"

text \<open>The exceptions of the included headers; their message arguments are left out.\<close>

datatype exn =
    BufferExceededException
  | PageNotPinnedException
  | PagePinnedException
  | BadBufferException
  | HashNotFoundException

text \<open>
  Modelled from the spec: the class \<open>File\<close> (file.h is not part of the sources at hand).
  The spec gives it \<open>readPage(pageNumber) \<rightarrow> pageContent\<close>, \<open>writePage(pageContent)\<close>
  ("writes to the page number embedded in the content"), \<open>allocatePage() \<rightarrow> pageContent\<close>
  ("content carries its newly assigned page number") and \<open>deletePage(pageNumber)\<close>, none
  of which fails. A file is the bytes stored under each page number and the last page
  number handed out; a fresh page number is the next one. Every call is also appended
  to a log, so that a claim can count the disk accesses of an operation.
\<close>

record File =
  last_page :: PageId
  stored :: "PageId \<Rightarrow> string"

datatype io_event =
    ReadPage File_ptr PageId
  | WritePage File_ptr Page
  | AllocatePage File_ptr PageId
  | DeletePage File_ptr PageId

text \<open>
  Modelled from the spec: the class \<open>BufHashTbl\<close> (not part of the sources at hand), an
  "exact-match directory from (file identity, page number) to frame slot" with "at most
  one entry per key".
\<close>

type_synonym BufHashTbl = "File_ptr \<times> PageId \<Rightarrow> FrameId option"

text \<open>
  The manager's members (\<open>numBufs\<close>, \<open>bufDescTable\<close>, \<open>bufPool\<close>, \<open>hashTable\<close>,
  \<open>clockHand\<close>), and next to them what its calls act on outside of it: the files the
  \<open>File*\<close> point at, and the log of the calls made on them. The two arrays are total
  functions on \<open>FrameId\<close>; the pool is the indices below \<open>numBufs\<close>.
\<close>

record BufMgr =
  numBufs :: "32 word"
  bufDescTable :: "FrameId \<Rightarrow> BufDesc"
  bufPool :: "FrameId \<Rightarrow> Page"
  hashTable :: BufHashTbl
  clockHand :: FrameId
  files :: "File_ptr \<Rightarrow> File"
  io :: "io_event list"

type_synonym 'a result = "(exn \<times> BufMgr) + ('a \<times> BufMgr)"

subsection \<open>The collaborators\<close>

text \<open>
  Modelled from the spec: the member functions of \<open>BufHashTbl\<close>, \<open>insert(fileIdentity,
  pageNumber, frameId)\<close>, \<open>lookup(fileIdentity, pageNumber) \<rightarrow> frameId\<close>, which "fails with
  NotFound when absent", and \<open>remove(fileIdentity, pageNumber)\<close>.
\<close>

definition insert_ht :: "BufHashTbl \<Rightarrow> File_ptr \<Rightarrow> PageId \<Rightarrow> FrameId \<Rightarrow> BufHashTbl" where
  "insert_ht ht f p frameId = ht((f, p) := Some frameId)"

definition lookup_ht :: "BufHashTbl \<Rightarrow> File_ptr \<Rightarrow> PageId \<Rightarrow> exn + FrameId" where
  "lookup_ht ht f p =
     (case ht (f, p) of None \<Rightarrow> Inl HashNotFoundException | Some frameId \<Rightarrow> Inr frameId)"

definition remove_ht :: "BufHashTbl \<Rightarrow> File_ptr \<Rightarrow> PageId \<Rightarrow> BufHashTbl" where
  "remove_ht ht f p = ht((f, p) := None)"

text \<open>
  Modelled from the spec: the member functions of \<open>File\<close>. Each takes the state for the
  files and the log in it, and returns it updated.
\<close>

definition File_readPage :: "BufMgr \<Rightarrow> File_ptr \<Rightarrow> PageId \<Rightarrow> Page \<times> BufMgr" where
  "File_readPage s f p =
     (\<lparr>page_number = p, contents = stored (files s f) p\<rparr>,
      s\<lparr>io := io s @ [ReadPage f p]\<rparr>)"

definition File_writePage :: "BufMgr \<Rightarrow> File_ptr \<Rightarrow> Page \<Rightarrow> BufMgr" where
  "File_writePage s f pg =
     s\<lparr>files := (files s)(f := (files s f)
          \<lparr>stored := (stored (files s f))(page_number pg := contents pg)\<rparr>),
       io := io s @ [WritePage f pg]\<rparr>"

definition File_allocatePage :: "BufMgr \<Rightarrow> File_ptr \<Rightarrow> Page \<times> BufMgr" where
  "File_allocatePage s f =
     (\<lparr>page_number = last_page (files s f) + 1, contents = []\<rparr>,
      s\<lparr>files := (files s)(f := (files s f)
           \<lparr>last_page := last_page (files s f) + 1,
            stored := (stored (files s f))(last_page (files s f) + 1 := [])\<rparr>),
        io := io s @ [AllocatePage f (last_page (files s f) + 1)]\<rparr>)"

definition File_deletePage :: "BufMgr \<Rightarrow> File_ptr \<Rightarrow> PageId \<Rightarrow> BufMgr" where
  "File_deletePage s f p =
     s\<lparr>files := (files s)(f := (files s f)\<lparr>stored := (stored (files s f))(p := [])\<rparr>),
       io := io s @ [DeletePage f p]\<rparr>"

subsection \<open>Constructor\<close>

text \<open>
  \<open>BufMgr::BufMgr(bufs)\<close>: the descriptors are default-constructed, the loop then sets
  \<open>frameNo\<close> and \<open>valid\<close> of the frames below \<open>bufs\<close>; the hash table is empty and the hand
  starts at \<open>bufs - 1\<close> (which wraps around for \<open>bufs = 0\<close>). The files are those of the
  caller.
\<close>

definition BufMgr_init :: "32 word \<Rightarrow> (File_ptr \<Rightarrow> File) \<Rightarrow> BufMgr" where
  "BufMgr_init bufs fs =
     \<lparr>numBufs = bufs,
      bufDescTable = (\<lambda>i. if i < bufs then BufDesc_default\<lparr>frameNo := i, valid := False\<rparr>
                           else BufDesc_default),
      bufPool = (\<lambda>i. Page_default),
      hashTable = (\<lambda>k. None),
      clockHand = bufs - 1,
      files = fs,
      io = []\<rparr>"

subsection \<open>The clock algorithm\<close>

text \<open>
  \<open>clockHand = (clockHand + 1) % numBufs\<close>. For a pool of no frames the source divides
  by zero, which C++ leaves undefined; \<open>mod\<close> on words returns the dividend there. With
  \<open>numBufs > 0\<close> the hand stays below \<open>numBufs\<close> and \<open>clockHand + 1\<close> does not wrap.
\<close>

definition advanceClock :: "BufMgr \<Rightarrow> BufMgr" where
  "advanceClock s = s\<lparr>clockHand := (clockHand s + 1) mod numBufs s\<rparr>"

text \<open>The descriptor under the hand, \<open>bufDescTable[clockHand]\<close>.\<close>

definition cur :: "BufMgr \<Rightarrow> BufDesc" where
  "cur s = bufDescTable s (clockHand s)"

text \<open>\<open>bufDescTable[clockHand].refbit = false\<close>\<close>

definition clear_refbit :: "BufMgr \<Rightarrow> BufMgr" where
  "clear_refbit s =
     s\<lparr>bufDescTable := (bufDescTable s)(clockHand s := (cur s)\<lparr>refbit := False\<rparr>)\<rparr>"

text \<open>
  The write-back of frame \<open>i\<close> when it is dirty (lines 111 to 116, and again 233 to 236):
  \<open>file->writePage(bufPool[i])\<close>, then \<open>dirty = false\<close>.
\<close>

definition write_back :: "BufMgr \<Rightarrow> FrameId \<Rightarrow> BufMgr" where
  "write_back s i =
     (if dirty (bufDescTable s i)
      then (File_writePage s (file_p (bufDescTable s i)) (bufPool s i))
             \<lparr>bufDescTable := (bufDescTable s)(i := (bufDescTable s i)\<lparr>dirty := False\<rparr>)\<rparr>
      else s)"

text \<open>
  The end of the loop body of \<open>allocBuf\<close>, reached on a valid, unreferenced and unpinned
  frame: write it back if dirty, remove its entry from the hash table, \<open>break\<close>.
\<close>

definition evict :: "BufMgr \<Rightarrow> BufMgr" where
  "evict s =
     (write_back s (clockHand s))
       \<lparr>hashTable := remove_ht (hashTable s) (file_p (cur s)) (pageNo (cur s))\<rparr>"

text \<open>
  The \<open>while\<close> loop of \<open>allocBuf\<close>, with the local counter \<open>pinned\<close> (a \<open>std::uint32_t\<close>).
  It returns the state at the \<open>break\<close> or at the failed loop test, or throws.
\<close>

function allocBuf_loop :: "BufMgr \<Rightarrow> 32 word \<Rightarrow> (exn \<times> BufMgr) + BufMgr" where
  "allocBuf_loop s pinned =
     (if valid (cur s) then
        (if refbit (cur s) then allocBuf_loop (advanceClock (clear_refbit s)) pinned
         else if pinCnt (cur s) \<noteq> 0 then
           (if pinned + 1 = numBufs s then Inl (BufferExceededException, s)
            else allocBuf_loop (advanceClock s) (pinned + 1))
         else Inr (evict s))
      else Inr s)"
  by pat_completeness auto
termination
proof (relation "measure (\<lambda>(s, pinned).
    card {i. valid (bufDescTable s i) \<and> refbit (bufDescTable s i)}
    + unat (numBufs s - pinned - 1))")
  show "wf (measure (\<lambda>(s, pinned).
    card {i. valid (bufDescTable s i) \<and> refbit (bufDescTable s i)}
    + unat (numBufs s - pinned - 1)))"
    by simp
next
  fix s :: BufMgr and pinned :: "32 word"
  assume v: "valid (cur s)" and r: "refbit (cur s)"
  let ?A = "{i. valid (bufDescTable s i) \<and> refbit (bufDescTable s i)}"
  have eq: "{i. valid (bufDescTable (advanceClock (clear_refbit s)) i)
              \<and> refbit (bufDescTable (advanceClock (clear_refbit s)) i)} = ?A - {clockHand s}"
    by (auto simp: advanceClock_def clear_refbit_def cur_def)
  have "clockHand s \<in> ?A"
    using v r by (simp add: cur_def)
  then have "card (?A - {clockHand s}) < card ?A"
    by (intro card_Diff1_less) simp_all
  then show "((advanceClock (clear_refbit s), pinned), (s, pinned)) \<in> measure (\<lambda>(s, pinned).
    card {i. valid (bufDescTable s i) \<and> refbit (bufDescTable s i)}
    + unat (numBufs s - pinned - 1))"
    using eq by (simp add: advanceClock_def clear_refbit_def)
next
  fix s :: BufMgr and pinned :: "32 word"
  assume ne: "pinned + 1 \<noteq> numBufs s"
  have dec: "\<And>w :: 32 word. w \<noteq> 0 \<Longrightarrow> unat (w - 1) < unat w"
    by (simp add: unat_minus_one unat_gt_0)
  have nz: "numBufs s - pinned - 1 \<noteq> 0"
    using ne by (auto simp: algebra_simps)
  have "unat (numBufs s - (pinned + 1) - 1) < unat (numBufs s - pinned - 1)"
    using dec [OF nz] by (simp add: diff_diff_eq)
  then show "((advanceClock s, pinned + 1), (s, pinned)) \<in> measure (\<lambda>(s, pinned).
    card {i. valid (bufDescTable s i) \<and> refbit (bufDescTable s i)}
    + unat (numBufs s - pinned - 1))"
    by (simp add: advanceClock_def)
qed

text \<open>
  \<open>BufMgr::allocBuf(frame)\<close>: advance the hand, run the loop, \<open>Clear()\<close> the frame under
  the hand and return its number through \<open>frame\<close>.
\<close>

definition allocBuf :: "BufMgr \<Rightarrow> FrameId result" where
  "allocBuf s =
     (case allocBuf_loop (advanceClock s) 0 of
        Inl x \<Rightarrow> Inl x
      | Inr s1 \<Rightarrow>
          Inr (clockHand s1,
               s1\<lparr>bufDescTable := (bufDescTable s1)(clockHand s1 := BufDesc_Clear (cur s1))\<rparr>))"

subsection \<open>Fetching and releasing pages\<close>

text \<open>
  \<open>BufMgr::readPage(file, pageNo, page)\<close>. \<open>page\<close> is a reference to the caller's
  pointer: the function takes the value the caller's variable holds and returns the
  value it holds afterwards. In the \<open>try\<close> block a successful lookup is followed by
  \<open>refbit = true\<close>, \<open>pinCnt++\<close> and \<open>return\<close> (line 149), which leaves the function
  before the assignment to \<open>page\<close> of line 167; the handler of
  \<open>HashNotFoundException\<close> falls through to that assignment.
\<close>

definition readPage :: "BufMgr \<Rightarrow> File_ptr \<Rightarrow> PageId \<Rightarrow> Page_ptr \<Rightarrow> Page_ptr result" where
  "readPage s f p page =
     (case lookup_ht (hashTable s) f p of
        Inr frameId \<Rightarrow>
          Inr (page,
               s\<lparr>bufDescTable := (bufDescTable s)(frameId := (bufDescTable s frameId)
                    \<lparr>refbit := True, pinCnt := pinCnt (bufDescTable s frameId) + 1\<rparr>)\<rparr>)
      | Inl e \<Rightarrow>
          if e = HashNotFoundException then
            (case allocBuf s of
               Inl x \<Rightarrow> Inl x
             | Inr (frameId, s1) \<Rightarrow>
                 (case File_readPage s1 f p of
                    (new_page, s2) \<Rightarrow>
                      Inr (Slot frameId,
                           s2\<lparr>bufPool := (bufPool s2)(frameId := new_page),
                              hashTable := insert_ht (hashTable s2) f p frameId,
                              bufDescTable := (bufDescTable s2)
                                (frameId := BufDesc_Set (bufDescTable s2 frameId) f p)\<rparr>)))
          else Inl (e, s))"

text \<open>
  \<open>BufMgr::unPinPage(file, pageNo, dirty)\<close>. The \<open>PageNotPinnedException\<close> is thrown
  inside the \<open>try\<close> block, whose handler catches \<open>HashNotFoundException\<close> only.
\<close>

definition unPinPage :: "BufMgr \<Rightarrow> File_ptr \<Rightarrow> PageId \<Rightarrow> bool \<Rightarrow> unit result" where
  "unPinPage s f p dirty_arg =
     (case lookup_ht (hashTable s) f p of
        Inr framdId \<Rightarrow>
          if pinCnt (bufDescTable s framdId) = 0 then Inl (PageNotPinnedException, s)
          else
            Inr ((),
                 s\<lparr>bufDescTable := (bufDescTable s)(framdId := (bufDescTable s framdId)
                      \<lparr>pinCnt := pinCnt (bufDescTable s framdId) - 1,
                       dirty := (if dirty_arg then True else dirty (bufDescTable s framdId))\<rparr>)\<rparr>)
      | Inl e \<Rightarrow> if e = HashNotFoundException then Inr ((), s) else Inl (e, s))"

subsection \<open>Flushing a file\<close>

text \<open>
  Lines 232 to 242 for frame \<open>i\<close>: write back if dirty, remove \<open>(file, pageNo)\<close> from the
  hash table, \<open>Clear()\<close> the descriptor.
\<close>

definition flush_frame :: "BufMgr \<Rightarrow> File_ptr \<Rightarrow> FrameId \<Rightarrow> BufMgr" where
  "flush_frame s f i =
     (write_back s i)
       \<lparr>hashTable := remove_ht (hashTable s) f (pageNo (bufDescTable s i)),
        bufDescTable := (bufDescTable (write_back s i))
          (i := BufDesc_Clear (bufDescTable (write_back s i) i))\<rparr>"

text \<open>
  The \<open>for\<close> loop of \<open>flushFile\<close> from index \<open>i\<close> on. The test of line 227 is
  \<open>if (bufDescTable[i].valid)\<close>.
\<close>

function flushFile_loop :: "BufMgr \<Rightarrow> File_ptr \<Rightarrow> FrameId \<Rightarrow> unit result" where
  "flushFile_loop s f i =
     (if i < numBufs s then
        (if file_p (bufDescTable s i) = f then
           (if pinCnt (bufDescTable s i) \<noteq> 0 then Inl (PagePinnedException, s)
            else if valid (bufDescTable s i) then Inl (BadBufferException, s)
            else flushFile_loop (flush_frame s f i) f (i + 1))
         else flushFile_loop s f (i + 1))
      else Inr ((), s))"
  by pat_completeness auto
termination
proof (relation "measure (\<lambda>(s, f, i). unat (numBufs s - i))")
  show "wf (measure (\<lambda>(s, f, i). unat (numBufs s - i)))"
    by simp
next
  fix s :: BufMgr and f :: File_ptr and i :: FrameId
  assume lt: "i < numBufs s"
  have dec: "\<And>w :: 32 word. w \<noteq> 0 \<Longrightarrow> unat (w - 1) < unat w"
    by (simp add: unat_minus_one unat_gt_0)
  have nz: "numBufs s - i \<noteq> 0"
    using lt by auto
  have step: "unat (numBufs s - (i + 1)) < unat (numBufs s - i)"
    using dec [OF nz] by (simp add: diff_diff_eq)
  have same: "numBufs (flush_frame s f i) = numBufs s"
    by (simp add: flush_frame_def write_back_def File_writePage_def)
  show "((flush_frame s f i, f, i + 1), (s, f, i)) \<in> measure (\<lambda>(s, f, i). unat (numBufs s - i))"
    using step same by simp
  show "((s, f, i + 1), (s, f, i)) \<in> measure (\<lambda>(s, f, i). unat (numBufs s - i))"
    using step by simp
qed

definition flushFile :: "BufMgr \<Rightarrow> File_ptr \<Rightarrow> unit result" where
  "flushFile s f = flushFile_loop s f 0"

subsection \<open>Allocating and disposing of pages\<close>

text \<open>
  \<open>BufMgr::allocPage(file, pageNo, page)\<close>. \<open>pageNo\<close> and \<open>page\<close> are references to the
  caller's variables; the function takes the value \<open>pageNo\<close> holds at the call. Lines 266
  and 267 read \<open>pageNo\<close>; line 270 assigns it.
\<close>

definition allocPage ::
    "BufMgr \<Rightarrow> File_ptr \<Rightarrow> PageId \<Rightarrow> Page_ptr \<Rightarrow> (PageId \<times> Page_ptr) result" where
  "allocPage s f pageNo_arg page =
     (case File_allocatePage s f of
        (new_page, s1) \<Rightarrow>
          (case allocBuf s1 of
             Inl x \<Rightarrow> Inl x
           | Inr (frameId, s2) \<Rightarrow>
               Inr ((page_number new_page, Slot frameId),
                    s2\<lparr>bufPool := (bufPool s2)(frameId := new_page),
                       hashTable := insert_ht (hashTable s2) f pageNo_arg frameId,
                       bufDescTable := (bufDescTable s2)
                         (frameId := BufDesc_Set (bufDescTable s2 frameId) f pageNo_arg)\<rparr>)))"

text \<open>\<open>BufMgr::disposePage(file, PageNo)\<close>\<close>

definition disposePage :: "BufMgr \<Rightarrow> File_ptr \<Rightarrow> PageId \<Rightarrow> unit result" where
  "disposePage s f p =
     (case lookup_ht (hashTable s) f p of
        Inr frameNo_l \<Rightarrow>
          Inr ((),
               File_deletePage
                 (s\<lparr>hashTable := remove_ht (hashTable s) f p,
                    bufDescTable := (bufDescTable s)
                      (frameNo_l := BufDesc_Clear (bufDescTable s frameNo_l))\<rparr>) f p)
      | Inl e \<Rightarrow>
          if e = HashNotFoundException then Inr ((), File_deletePage s f p)
          else Inl (e, s))"

subsection \<open>Callers\<close>

text \<open>
  A caller issues public calls one after the other. \<open>after\<close> is the manager's state once
  a call is over, whether it returned or threw; \<open>exec\<close> makes one call, \<open>execs\<close> a
  sequence of them from left to right.
\<close>

datatype call =
    Call_readPage File_ptr PageId Page_ptr
  | Call_unPinPage File_ptr PageId bool
  | Call_flushFile File_ptr
  | Call_allocPage File_ptr PageId Page_ptr
  | Call_disposePage File_ptr PageId

definition after :: "'a result \<Rightarrow> BufMgr" where
  "after r = (case r of Inl (e, s) \<Rightarrow> s | Inr (v, s) \<Rightarrow> s)"

definition thrown :: "'a result \<Rightarrow> exn option" where
  "thrown r = (case r of Inl (e, s) \<Rightarrow> Some e | Inr (v, s) \<Rightarrow> None)"

fun exec :: "BufMgr \<Rightarrow> call \<Rightarrow> BufMgr" where
  "exec s (Call_readPage f p page) = after (readPage s f p page)"
| "exec s (Call_unPinPage f p d) = after (unPinPage s f p d)"
| "exec s (Call_flushFile f) = after (flushFile s f)"
| "exec s (Call_allocPage f p page) = after (allocPage s f p page)"
| "exec s (Call_disposePage f p) = after (disposePage s f p)"

fun call_thrown :: "BufMgr \<Rightarrow> call \<Rightarrow> exn option" where
  "call_thrown s (Call_readPage f p page) = thrown (readPage s f p page)"
| "call_thrown s (Call_unPinPage f p d) = thrown (unPinPage s f p d)"
| "call_thrown s (Call_flushFile f) = thrown (flushFile s f)"
| "call_thrown s (Call_allocPage f p page) = thrown (allocPage s f p page)"
| "call_thrown s (Call_disposePage f p) = thrown (disposePage s f p)"

definition execs :: "BufMgr \<Rightarrow> call list \<Rightarrow> BufMgr" where
  "execs s cs = foldl exec s cs"

definition returned :: "'a result \<Rightarrow> 'a option" where
  "returned r = (case r of Inl (e, s) \<Rightarrow> None | Inr (v, s) \<Rightarrow> Some v)"

text \<open>
  A caller that fetches and unpins one page \<open>(f, p)\<close> and does not catch: the first
  exception ends the sequence.
\<close>

datatype pin_call = Fetch Page_ptr | Unpin bool

fun pin_calls :: "BufMgr \<Rightarrow> File_ptr \<Rightarrow> PageId \<Rightarrow> pin_call list \<Rightarrow> (exn \<times> BufMgr) + BufMgr" where
  "pin_calls s f p [] = Inr s"
| "pin_calls s f p (Fetch page # cs) =
     (case readPage s f p page of Inl x \<Rightarrow> Inl x | Inr (v, s') \<Rightarrow> pin_calls s' f p cs)"
| "pin_calls s f p (Unpin d # cs) =
     (case unPinPage s f p d of Inl x \<Rightarrow> Inl x | Inr (v, s') \<Rightarrow> pin_calls s' f p cs)"

fun fetches :: "pin_call list \<Rightarrow> nat" where
  "fetches [] = 0"
| "fetches (Fetch page # cs) = Suc (fetches cs)"
| "fetches (Unpin d # cs) = fetches cs"

fun unpins :: "pin_call list \<Rightarrow> nat" where
  "unpins [] = 0"
| "unpins (Fetch page # cs) = unpins cs"
| "unpins (Unpin d # cs) = Suc (unpins cs)"

subsection \<open>Invariants of the frame table and the hash table\<close>

text \<open>
  What every state the public functions can reach satisfies: a frame that is not valid
  is not pinned, and an entry of the hash table points at a valid frame that holds the
  page of its key.
\<close>

definition pin_inv :: "BufMgr \<Rightarrow> bool" where
  "pin_inv s \<longleftrightarrow>
     (\<forall>i. \<not> valid (bufDescTable s i) \<longrightarrow> pinCnt (bufDescTable s i) = 0) \<and>
     (\<forall>f p i. hashTable s (f, p) = Some i \<longrightarrow>
        valid (bufDescTable s i) \<and> file_p (bufDescTable s i) = f \<and> pageNo (bufDescTable s i) = p)"

text \<open>The frame under the hand is free: no entry points at it and nobody pins it.\<close>

definition hand_free :: "BufMgr \<Rightarrow> bool" where
  "hand_free s \<longleftrightarrow> (\<forall>k. hashTable s k \<noteq> Some (clockHand s)) \<and> pinCnt (cur s) = 0"

text \<open>The page a frame holds: whether it is valid, and of which file and number.\<close>

definition held_page :: "BufMgr \<Rightarrow> FrameId \<Rightarrow> bool \<times> File_ptr \<times> PageId" where
  "held_page s i =
     (valid (bufDescTable s i), file_p (bufDescTable s i), pageNo (bufDescTable s i))"

text \<open>
  The pool is full of pinned pages: the hand is in the pool and every frame of it is
  valid and pinned.
\<close>

definition all_pinned :: "BufMgr \<Rightarrow> bool" where
  "all_pinned s \<longleftrightarrow>
     clockHand s < numBufs s \<and>
     (\<forall>i. i < numBufs s \<longrightarrow> valid (bufDescTable s i) \<and> pinCnt (bufDescTable s i) \<noteq> 0)"

subsection \<open>States used as examples\<close>

text \<open>
  Files without pages, a pool of two frames over them, and states a caller reaches from
  it: page 1 of file 1 fetched; fetched and unpinned; page 1 unpinned and page 2 pinned;
  and a state where frame 0 is pinned with its reference bit cleared while frame 1 is
  unpinned with its reference bit set.
\<close>

definition empty_files :: "File_ptr \<Rightarrow> File" where
  "empty_files = (\<lambda>f. \<lparr>last_page = 0, stored = (\<lambda>p. [])\<rparr>)"

definition pool1 :: BufMgr where
  "pool1 = BufMgr_init 1 empty_files"

definition pool2 :: BufMgr where
  "pool2 = BufMgr_init 2 empty_files"

definition cached_once :: BufMgr where
  "cached_once = execs pool2 [Call_readPage 1 1 Elsewhere]"

definition unpinned_page :: BufMgr where
  "unpinned_page = execs pool2 [Call_readPage 1 1 Elsewhere, Call_unPinPage 1 1 False]"

definition one_pinned_one_not :: BufMgr where
  "one_pinned_one_not =
     execs pool2 [Call_readPage 1 1 Elsewhere, Call_unPinPage 1 1 False,
                  Call_readPage 1 2 Elsewhere]"

definition second_chance_state :: BufMgr where
  "second_chance_state =
     execs pool2 [Call_readPage 1 1 Elsewhere, Call_readPage 1 2 Elsewhere,
                  Call_unPinPage 1 2 False, Call_readPage 1 3 Elsewhere,
                  Call_unPinPage 1 3 False]"

definition evictable_state :: BufMgr where
  "evictable_state =
     execs pool1 [Call_readPage 1 1 Elsewhere, Call_unPinPage 1 1 True]"

definition dirty_pinned_page :: BufMgr where
  "dirty_pinned_page =
     execs pool2 [Call_readPage 1 1 Elsewhere, Call_readPage 1 1 Elsewhere,
                  Call_unPinPage 1 1 True]"

text \<open>Whether a sequence of calls ran to its end, and the state it ended in.\<close>

definition completes :: "(exn \<times> BufMgr) + BufMgr \<Rightarrow> bool" where
  "completes r = (case r of Inl x \<Rightarrow> False | Inr s \<Rightarrow> True)"

definition final_state :: "(exn \<times> BufMgr) + BufMgr \<Rightarrow> BufMgr" where
  "final_state r = (case r of Inl (e, s) \<Rightarrow> s | Inr s \<Rightarrow> s)"

section \<open>Properties\<close>

declare allocBuf_loop.simps [simp del] flushFile_loop.simps [simp del]

subsection \<open>What the loops throw\<close>

lemma allocBuf_loop_throws:
  "allocBuf_loop s pinned = Inl (e, s') \<Longrightarrow> e = BufferExceededException"
proof (induction s pinned rule: allocBuf_loop.induct)
  case (1 s pinned)
  then show ?case
    by (subst (asm) (3) allocBuf_loop.simps) (auto split: if_splits)
qed

lemma flushFile_loop_throws:
  "flushFile_loop s f i = Inl (e, s') \<Longrightarrow> e = PagePinnedException \<or> e = BadBufferException"
proof (induction s f i rule: flushFile_loop.induct)
  case (1 s f i)
  then show ?case
    by (subst (asm) (3) flushFile_loop.simps) (auto split: if_splits)
qed

subsection \<open>The invariant along the clock sweep\<close>

lemma pin_inv_advanceClock [simp]: "pin_inv (advanceClock s) = pin_inv s"
  by (simp add: pin_inv_def advanceClock_def)

lemma pin_inv_clear_refbit: "pin_inv s \<Longrightarrow> pin_inv (clear_refbit s)"
  by (simp add: pin_inv_def clear_refbit_def cur_def)

lemma write_back_fields [simp]:
  "hashTable (write_back s i) = hashTable s"
  "clockHand (write_back s i) = clockHand s"
  "numBufs (write_back s i) = numBufs s"
  "valid (bufDescTable (write_back s i) j) = valid (bufDescTable s j)"
  "pinCnt (bufDescTable (write_back s i) j) = pinCnt (bufDescTable s j)"
  "file_p (bufDescTable (write_back s i) j) = file_p (bufDescTable s j)"
  "pageNo (bufDescTable (write_back s i) j) = pageNo (bufDescTable s j)"
  by (simp_all add: write_back_def File_writePage_def)

lemma pin_inv_write_back: "pin_inv (write_back s i) = pin_inv s"
  by (simp add: pin_inv_def)

lemma evict_ok:
  assumes "pin_inv s" "pinCnt (cur s) = 0"
  shows "pin_inv (evict s) \<and> hand_free (evict s)"
  using assms
  by (auto simp: pin_inv_def evict_def hand_free_def remove_ht_def cur_def)

lemma invalid_hand_free: "pin_inv s \<Longrightarrow> \<not> valid (cur s) \<Longrightarrow> hand_free s"
  by (auto simp: pin_inv_def hand_free_def cur_def)

lemma allocBuf_loop_inv:
  "pin_inv s \<Longrightarrow>
     (case allocBuf_loop s pinned of
        Inl (e, s') \<Rightarrow> pin_inv s'
      | Inr s' \<Rightarrow> pin_inv s' \<and> hand_free s')"
proof (induction s pinned rule: allocBuf_loop.induct)
  case (1 s pinned)
  show ?case
  proof (cases "valid (cur s)")
    case False
    with 1 show ?thesis
      by (simp add: allocBuf_loop.simps [of s] invalid_hand_free)
  next
    case v: True
    show ?thesis
    proof (cases "refbit (cur s)")
      case True
      with v 1 show ?thesis
        by (simp add: allocBuf_loop.simps [of s] pin_inv_clear_refbit)
    next
      case r: False
      show ?thesis
      proof (cases "pinCnt (cur s) = 0")
        case True
        with v r 1 show ?thesis
          using evict_ok [of s] by (simp add: allocBuf_loop.simps [of s])
      next
        case False
        with v r 1 show ?thesis
          by (simp add: allocBuf_loop.simps [of s])
      qed
    qed
  qed
qed

lemma allocBuf_loop_pinCnt:
  "pinCnt (bufDescTable (case allocBuf_loop s pinned of Inl (e, s') \<Rightarrow> s' | Inr s' \<Rightarrow> s') i)
     = pinCnt (bufDescTable s i)"
proof (induction s pinned rule: allocBuf_loop.induct)
  case (1 s pinned)
  then show ?case
    by (subst allocBuf_loop.simps)
       (auto simp: advanceClock_def clear_refbit_def cur_def evict_def remove_ht_def)
qed

lemma allocBuf_inv:
  assumes "pin_inv s"
  shows "case allocBuf s of
           Inl (e, s') \<Rightarrow> pin_inv s'
         | Inr (frame, s') \<Rightarrow>
             pin_inv s' \<and> (\<forall>k. hashTable s' k \<noteq> Some frame)
             \<and> \<not> valid (bufDescTable s' frame) \<and> pinCnt (bufDescTable s frame) = 0"
proof (cases "allocBuf_loop (advanceClock s) 0")
  case (Inl x)
  with allocBuf_loop_inv [of "advanceClock s" 0] assms show ?thesis
    by (auto simp: allocBuf_def)
next
  case (Inr s1)
  with allocBuf_loop_inv [of "advanceClock s" 0] assms
  have inv1: "pin_inv s1" and free: "hand_free s1"
    by auto
  from allocBuf_loop_pinCnt [of "advanceClock s" 0 "clockHand s1"] Inr
  have "pinCnt (bufDescTable s (clockHand s1)) = pinCnt (cur s1)"
    by (simp add: cur_def advanceClock_def)
  with inv1 free Inr show ?thesis
    by (auto simp: allocBuf_def pin_inv_def hand_free_def BufDesc_Clear_def cur_def)
qed

subsection \<open>The invariant holds in every reachable state\<close>

lemma pin_inv_init: "pin_inv (BufMgr_init bufs fs)"
  by (simp add: pin_inv_def BufMgr_init_def BufDesc_default_def)

lemma readPage_inv:
  assumes "pin_inv s"
  shows "pin_inv (after (readPage s f p page))"
proof (cases "hashTable s (f, p)")
  case (Some i)
  with assms show ?thesis
    by (auto simp: readPage_def lookup_ht_def after_def pin_inv_def)
next
  case None
  show ?thesis
  proof (cases "allocBuf s")
    case (Inl x)
    with allocBuf_inv [OF assms] None show ?thesis
      by (auto simp: readPage_def lookup_ht_def after_def)
  next
    case (Inr y)
    obtain frame s1 where y: "y = (frame, s1)"
      by (cases y)
    from allocBuf_inv [OF assms] Inr y
    have inv1: "pin_inv s1" and free: "\<forall>k. hashTable s1 k \<noteq> Some frame"
      by auto
    have "pin_inv (s1\<lparr>io := io s1 @ [ReadPage f p],
                      bufPool := (bufPool s1)(frame := pg),
                      hashTable := insert_ht (hashTable s1) f p frame,
                      bufDescTable := (bufDescTable s1)
                        (frame := BufDesc_Set (bufDescTable s1 frame) f p)\<rparr>)" for pg
      using inv1 free by (auto simp: pin_inv_def insert_ht_def BufDesc_Set_def)
    with None Inr y show ?thesis
      by (simp add: readPage_def lookup_ht_def after_def File_readPage_def)
  qed
qed

lemma pin_inv_File_allocatePage: "pin_inv (snd (File_allocatePage s f)) = pin_inv s"
  by (simp add: pin_inv_def File_allocatePage_def)

lemma allocPage_inv:
  assumes "pin_inv s"
  shows "pin_inv (after (allocPage s f pageNo_arg page))"
proof -
  obtain new_page s0 where a: "File_allocatePage s f = (new_page, s0)"
    by (cases "File_allocatePage s f")
  with pin_inv_File_allocatePage [of s f] assms have inv0: "pin_inv s0"
    by simp
  show ?thesis
  proof (cases "allocBuf s0")
    case (Inl x)
    with allocBuf_inv [OF inv0] a show ?thesis
      by (auto simp: allocPage_def after_def)
  next
    case (Inr y)
    obtain frame s1 where y: "y = (frame, s1)"
      by (cases y)
    from allocBuf_inv [OF inv0] Inr y
    have inv1: "pin_inv s1" and free: "\<forall>k. hashTable s1 k \<noteq> Some frame"
      by auto
    have "pin_inv (s1\<lparr>bufPool := (bufPool s1)(frame := new_page),
                      hashTable := insert_ht (hashTable s1) f pageNo_arg frame,
                      bufDescTable := (bufDescTable s1)
                        (frame := BufDesc_Set (bufDescTable s1 frame) f pageNo_arg)\<rparr>)"
      using inv1 free by (auto simp: pin_inv_def insert_ht_def BufDesc_Set_def)
    with a Inr y show ?thesis
      by (simp add: allocPage_def after_def)
  qed
qed

lemma unPinPage_inv: "pin_inv s \<Longrightarrow> pin_inv (after (unPinPage s f p d))"
  by (cases "hashTable s (f, p)")
     (auto simp: unPinPage_def lookup_ht_def after_def pin_inv_def)

lemma pin_inv_entry:
  "pin_inv s \<Longrightarrow> hashTable s (f, p) = Some i \<Longrightarrow>
     valid (bufDescTable s i) \<and> file_p (bufDescTable s i) = f \<and> pageNo (bufDescTable s i) = p"
  unfolding pin_inv_def by blast

lemma disposePage_inv:
  assumes "pin_inv s"
  shows "pin_inv (after (disposePage s f p))"
proof (cases "hashTable s (f, p)")
  case None
  with assms show ?thesis
    by (simp add: disposePage_def lookup_ht_def after_def pin_inv_def File_deletePage_def)
next
  case (Some i)
  have only: "k = (f, p)" if "hashTable s k = Some i" for k
  proof (cases k)
    case (Pair a b)
    with that assms have "file_p (bufDescTable s i) = a \<and> pageNo (bufDescTable s i) = b"
      using pin_inv_entry [of s a b i] by simp
    moreover from Some assms have "file_p (bufDescTable s i) = f \<and> pageNo (bufDescTable s i) = p"
      using pin_inv_entry [of s f p i] by simp
    ultimately show ?thesis
      using Pair by simp
  qed
  have "pin_inv (s\<lparr>hashTable := remove_ht (hashTable s) f p,
                    bufDescTable := (bufDescTable s)(i := BufDesc_Clear (bufDescTable s i))\<rparr>)"
    using assms only by (auto simp: pin_inv_def remove_ht_def BufDesc_Clear_def)
  then show ?thesis
    using Some
    by (simp add: disposePage_def lookup_ht_def after_def File_deletePage_def pin_inv_def)
qed

lemma flush_frame_inv:
  "pin_inv s \<Longrightarrow> \<not> valid (bufDescTable s i) \<Longrightarrow> pin_inv (flush_frame s f i)"
  by (auto simp: pin_inv_def flush_frame_def remove_ht_def BufDesc_Clear_def)

lemma flushFile_loop_inv: "pin_inv s \<Longrightarrow> pin_inv (after (flushFile_loop s f i))"
proof (induction s f i rule: flushFile_loop.induct)
  case (1 s f i)
  then show ?case
    by (subst flushFile_loop.simps) (auto simp: after_def flush_frame_inv)
qed

lemma exec_inv: "pin_inv s \<Longrightarrow> pin_inv (exec s c)"
  by (cases c)
     (simp_all add: readPage_inv unPinPage_inv allocPage_inv disposePage_inv
                    flushFile_loop_inv flushFile_def)

lemma execs_inv: "pin_inv s \<Longrightarrow> pin_inv (execs s cs)"
  unfolding execs_def by (induction cs arbitrary: s) (simp_all add: exec_inv)

lemma reachable_inv: "pin_inv (execs (BufMgr_init bufs fs) cs)"
  by (rule execs_inv [OF pin_inv_init])

subsection \<open>Pinned frames keep their page\<close>

lemma allocBuf_loop_held:
  "held_page (case allocBuf_loop s pinned of Inl (e, s') \<Rightarrow> s' | Inr s' \<Rightarrow> s') i = held_page s i"
proof (induction s pinned rule: allocBuf_loop.induct)
  case (1 s pinned)
  then show ?case
    by (subst allocBuf_loop.simps)
       (auto simp: held_page_def advanceClock_def clear_refbit_def cur_def evict_def remove_ht_def)
qed

lemma allocBuf_held:
  assumes "pin_inv s" "0 < pinCnt (bufDescTable s i)"
  shows "held_page (after (allocBuf s)) i = held_page s i \<and> returned (allocBuf s) \<noteq> Some i"
proof (cases "allocBuf_loop (advanceClock s) 0")
  case (Inl x)
  with allocBuf_loop_held [of "advanceClock s" 0 i] show ?thesis
    by (cases x) (simp add: allocBuf_def after_def returned_def held_page_def advanceClock_def)
next
  case (Inr s1)
  from allocBuf_inv [OF assms(1)] Inr have "pinCnt (bufDescTable s (clockHand s1)) = 0"
    by (simp add: allocBuf_def)
  with assms(2) have ne: "clockHand s1 \<noteq> i"
    by auto
  with allocBuf_loop_held [of "advanceClock s" 0 i] Inr show ?thesis
    by (simp add: allocBuf_def after_def returned_def held_page_def advanceClock_def)
qed

lemma readPage_held:
  assumes "pin_inv s" "0 < pinCnt (bufDescTable s i)"
  shows "held_page (after (readPage s f p page)) i = held_page s i"
proof (cases "hashTable s (f, p)")
  case (Some j)
  then show ?thesis
    by (simp add: readPage_def lookup_ht_def after_def held_page_def)
next
  case None
  show ?thesis
  proof (cases "allocBuf s")
    case (Inl x)
    with allocBuf_held [OF assms] None show ?thesis
      by (cases x) (simp add: readPage_def lookup_ht_def after_def)
  next
    case (Inr y)
    obtain frame s1 where y: "y = (frame, s1)"
      by (cases y)
    with allocBuf_held [OF assms] Inr
    have "held_page s1 i = held_page s i" and "frame \<noteq> i"
      by (auto simp: after_def returned_def)
    with None Inr y show ?thesis
      by (simp add: readPage_def lookup_ht_def after_def File_readPage_def held_page_def)
  qed
qed

lemma allocPage_held:
  assumes "pin_inv s" "0 < pinCnt (bufDescTable s i)"
  shows "held_page (after (allocPage s f n page)) i = held_page s i"
proof -
  obtain new_page s0 where a: "File_allocatePage s f = (new_page, s0)"
    by (cases "File_allocatePage s f")
  then have tbl: "bufDescTable s0 = bufDescTable s"
    by (auto simp: File_allocatePage_def)
  from a pin_inv_File_allocatePage [of s f] assms have inv0: "pin_inv s0"
    by simp
  from tbl assms have pin0: "0 < pinCnt (bufDescTable s0 i)"
    by simp
  from tbl have h0: "held_page s0 i = held_page s i"
    by (simp add: held_page_def)
  show ?thesis
  proof (cases "allocBuf s0")
    case (Inl x)
    with allocBuf_held [OF inv0 pin0] a h0 show ?thesis
      by (cases x) (simp add: allocPage_def after_def)
  next
    case (Inr y)
    obtain frame s1 where y: "y = (frame, s1)"
      by (cases y)
    with allocBuf_held [OF inv0 pin0] Inr
    have "held_page s1 i = held_page s0 i" and "frame \<noteq> i"
      by (auto simp: after_def returned_def)
    with a h0 Inr y show ?thesis
      by (simp add: allocPage_def after_def held_page_def)
  qed
qed

subsection \<open>What the public functions throw\<close>

lemma allocBuf_throws: "allocBuf s = Inl (e, s') \<Longrightarrow> e = BufferExceededException"
  using allocBuf_loop_throws [of "advanceClock s" 0]
  by (auto simp: allocBuf_def split: sum.splits)

lemma thrown_readPage: "thrown (readPage s f p page) \<in> {None, Some BufferExceededException}"
  using allocBuf_throws [of s]
  by (auto simp: readPage_def lookup_ht_def thrown_def File_readPage_def
           split: option.splits sum.splits)

lemma thrown_allocPage: "thrown (allocPage s f n page) \<in> {None, Some BufferExceededException}"
  using allocBuf_throws [of "snd (File_allocatePage s f)"]
  by (auto simp: allocPage_def thrown_def split: prod.splits sum.splits)

lemma thrown_unPinPage: "thrown (unPinPage s f p d) \<in> {None, Some PageNotPinnedException}"
  by (auto simp: unPinPage_def lookup_ht_def thrown_def split: option.splits)

lemma thrown_disposePage: "thrown (disposePage s f p) = None"
  by (auto simp: disposePage_def lookup_ht_def thrown_def split: option.splits)

lemma thrown_flushFile:
  "thrown (flushFile s f) \<in> {None, Some PagePinnedException, Some BadBufferException}"
  using flushFile_loop_throws [of s f 0]
  by (cases "flushFile_loop s f 0") (auto simp: flushFile_def thrown_def)

text \<open>
  \<open>BadBufferException\<close> leaves \<open>flushFile\<close> only on a frame of the file that is valid
  and not pinned: the state at the throw holds such a frame.
\<close>

lemma flushFile_loop_BadBuffer:
  "flushFile_loop s f j = Inl (BadBufferException, s') \<Longrightarrow>
     \<exists>i. i < numBufs s' \<and> file_p (bufDescTable s' i) = f
         \<and> valid (bufDescTable s' i) \<and> pinCnt (bufDescTable s' i) = 0"
proof (induction s f j rule: flushFile_loop.induct)
  case (1 s f j)
  then show ?case
    by (subst (asm) (3) flushFile_loop.simps) (auto split: if_splits)
qed

lemma flushFile_BadBuffer:
  "flushFile s f = Inl (BadBufferException, s') \<Longrightarrow>
     \<exists>i. i < numBufs s' \<and> file_p (bufDescTable s' i) = f
         \<and> valid (bufDescTable s' i) \<and> pinCnt (bufDescTable s' i) = 0"
  unfolding flushFile_def by (rule flushFile_loop_BadBuffer)

text \<open>
  What each public function can throw, in every state. The hash table and the files
  are the modelled ones, whose \<open>insert\<close>, \<open>remove\<close> and file calls do not throw; the
  source calls \<open>remove\<close> outside of any \<open>try\<close> block (lines 118 and 239).
\<close>

lemma public_exceptions:
  "thrown (readPage s f p page) \<in> {None, Some BufferExceededException}
   \<and> thrown (allocPage s f n page) \<in> {None, Some BufferExceededException}
   \<and> thrown (unPinPage s f p d) \<in> {None, Some PageNotPinnedException}
   \<and> thrown (disposePage s f p) = None
   \<and> thrown (flushFile s f) \<in> {None, Some PagePinnedException, Some BadBufferException}"
  using thrown_readPage thrown_allocPage thrown_unPinPage thrown_disposePage thrown_flushFile
  by blast

subsection \<open>Hits, misses and sequences of pins\<close>

lemma readPage_hit:
  assumes "hashTable s (f, p) = Some i"
  shows "readPage s f p page =
     Inr (page, s\<lparr>bufDescTable := (bufDescTable s)(i := (bufDescTable s i)
            \<lparr>refbit := True, pinCnt := pinCnt (bufDescTable s i) + 1\<rparr>)\<rparr>)"
  using assms by (simp add: readPage_def lookup_ht_def)

lemma readPage_miss:
  assumes "hashTable s (f, p) = None" and "readPage s f p page = Inr (v, s')"
  shows "\<exists>i. hashTable s' (f, p) = Some i \<and> pinCnt (bufDescTable s' i) = 1"
  using assms
  by (auto simp: readPage_def lookup_ht_def File_readPage_def insert_ht_def BufDesc_Set_def
           split: sum.splits)

lemma unPinPage_cases:
  "unPinPage s f p d =
     (case hashTable s (f, p) of
        None \<Rightarrow> Inr ((), s)
      | Some i \<Rightarrow>
          if pinCnt (bufDescTable s i) = 0 then Inl (PageNotPinnedException, s)
          else Inr ((), s\<lparr>bufDescTable := (bufDescTable s)(i := (bufDescTable s i)
                 \<lparr>pinCnt := pinCnt (bufDescTable s i) - 1,
                  dirty := d \<or> dirty (bufDescTable s i)\<rparr>)\<rparr>))"
  by (auto simp: unPinPage_def lookup_ht_def split: option.splits)

lemma pin_calls_count:
  "hashTable s (f, p) = Some i \<Longrightarrow> pin_calls s f p cs = Inr s' \<Longrightarrow>
     hashTable s' (f, p) = Some i
     \<and> pinCnt (bufDescTable s' i) + unpins cs = pinCnt (bufDescTable s i) + fetches cs"
proof (induction cs arbitrary: s)
  case Nil
  then show ?case by simp
next
  case (Cons c cs)
  show ?case
  proof (cases c)
    case (Fetch page)
    let ?s1 = "s\<lparr>bufDescTable := (bufDescTable s)(i := (bufDescTable s i)
            \<lparr>refbit := True, pinCnt := pinCnt (bufDescTable s i) + 1\<rparr>)\<rparr>"
    from Cons.prems Fetch have run: "pin_calls ?s1 f p cs = Inr s'"
      by (simp add: readPage_hit)
    have "hashTable ?s1 (f, p) = Some i"
      using Cons.prems by simp
    from Cons.IH [OF this run] Fetch show ?thesis
      by simp
  next
    case (Unpin d)
    let ?s1 = "s\<lparr>bufDescTable := (bufDescTable s)(i := (bufDescTable s i)
                 \<lparr>pinCnt := pinCnt (bufDescTable s i) - 1,
                  dirty := d \<or> dirty (bufDescTable s i)\<rparr>)\<rparr>"
    from Cons.prems Unpin have pos: "pinCnt (bufDescTable s i) \<noteq> 0"
      by (auto simp: unPinPage_cases split: if_splits)
    with Cons.prems Unpin have run: "pin_calls ?s1 f p cs = Inr s'"
      by (simp add: unPinPage_cases)
    have "hashTable ?s1 (f, p) = Some i"
      using Cons.prems by simp
    from Cons.IH [OF this run] Unpin pos show ?thesis
      by simp
  qed
qed

lemma completes_final_state: "completes r \<Longrightarrow> r = Inr (final_state r)"
  by (cases r) (simp_all add: completes_def final_state_def)

subsection \<open>When the loops are bound to throw\<close>

text \<open>
  \<open>flushFile\<close> throws whenever the pool holds a valid frame of the file, pinned or not;
  \<open>allocBuf\<close> throws whenever the pool is full of pinned pages.
\<close>

lemma flush_frame_other:
  "i \<noteq> j \<Longrightarrow> bufDescTable (flush_frame s f j) i = bufDescTable s i"
  by (simp add: flush_frame_def write_back_def File_writePage_def)

lemma flush_frame_numBufs [simp]: "numBufs (flush_frame s f j) = numBufs s"
  by (simp add: flush_frame_def)

lemma flushFile_loop_valid_frame_throws:
  "j \<le> i \<Longrightarrow> i < numBufs s \<Longrightarrow> file_p (bufDescTable s i) = f \<Longrightarrow> valid (bufDescTable s i)
     \<Longrightarrow> thrown (flushFile_loop s f j) \<noteq> None"
proof (induction s f j rule: flushFile_loop.induct)
  case (1 s f j)
  from "1.prems" have lt: "j < numBufs s"
    by simp
  show ?case
  proof (cases "file_p (bufDescTable s j) = f")
    case same: True
    show ?thesis
    proof (cases "pinCnt (bufDescTable s j) \<noteq> 0 \<or> valid (bufDescTable s j)")
      case True
      with lt same show ?thesis
        by (subst flushFile_loop.simps) (auto simp: thrown_def)
    next
      case False
      with "1.prems" have ne: "i \<noteq> j"
        by auto
      with "1.prems" have "j < i"
        by simp
      then have le: "j + 1 \<le> i"
        by (rule inc_le)
      from "1.IH"(1) [OF lt same _ _ le] False ne "1.prems"
      have "thrown (flushFile_loop (flush_frame s f j) f (j + 1)) \<noteq> None"
        by (simp add: flush_frame_other)
      with lt same False show ?thesis
        by (subst flushFile_loop.simps) simp
    qed
  next
    case False
    with "1.prems" have ne: "i \<noteq> j"
      by auto
    with "1.prems" have "j < i"
      by simp
    then have le: "j + 1 \<le> i"
      by (rule inc_le)
    from "1.IH"(2) [OF lt False le] "1.prems"
    have "thrown (flushFile_loop s f (j + 1)) \<noteq> None"
      by simp
    with lt False show ?thesis
      by (subst flushFile_loop.simps) simp
  qed
qed

lemma flushFile_valid_frame_throws:
  "i < numBufs s \<Longrightarrow> file_p (bufDescTable s i) = f \<Longrightarrow> valid (bufDescTable s i)
     \<Longrightarrow> thrown (flushFile s f) \<noteq> None"
  unfolding flushFile_def by (rule flushFile_loop_valid_frame_throws) simp_all

lemma all_pinned_advanceClock:
  assumes "all_pinned s"
  shows "all_pinned (advanceClock s)"
proof -
  from assms have "numBufs s \<noteq> 0"
    by (auto simp: all_pinned_def)
  then have "0 < numBufs s"
    by (simp add: word_gt_0)
  then have "(clockHand s + 1) mod numBufs s < numBufs s"
    by (rule word_mod_less_divisor)
  with assms show ?thesis
    by (simp add: all_pinned_def advanceClock_def)
qed

lemma all_pinned_clear_refbit: "all_pinned s \<Longrightarrow> all_pinned (clear_refbit s)"
  by (auto simp: all_pinned_def clear_refbit_def cur_def)

lemma allocBuf_loop_all_pinned:
  "all_pinned s \<Longrightarrow> \<exists>s'. allocBuf_loop s pinned = Inl (BufferExceededException, s')"
proof (induction s pinned rule: allocBuf_loop.induct)
  case (1 s pinned)
  then have cur: "valid (cur s)" "pinCnt (cur s) \<noteq> 0"
    by (auto simp: all_pinned_def cur_def)
  show ?case
  proof (cases "refbit (cur s)")
    case True
    with "1.IH"(1) cur all_pinned_advanceClock [OF all_pinned_clear_refbit [OF "1.prems"]]
    show ?thesis
      by (subst allocBuf_loop.simps) simp
  next
    case False
    with "1.IH"(2) cur all_pinned_advanceClock [OF "1.prems"]
    show ?thesis
      by (subst allocBuf_loop.simps) simp
  qed
qed

lemma allocBuf_all_pinned_throws:
  "all_pinned s \<Longrightarrow> thrown (allocBuf s) = Some BufferExceededException"
  using allocBuf_loop_all_pinned [OF all_pinned_advanceClock, of s 0]
  by (auto simp: allocBuf_def thrown_def)

subsection \<open>Claims\<close>

text \<open>
  C1. The claim: a \<open>readPage\<close> of a page that is cached sets the frame's \<open>refbit\<close>,
  increments its \<open>pinCnt\<close>, makes no disk access and returns a pointer to the frame's
  slot of \<open>bufPool\<close>, so that two calls for the same page return the same slot.
  The code at the claim's input: the first \<open>readPage\<close> of page 1 of file 1 (a miss) hands
  back slot 0 and leaves the page cached in frame 0; a second \<open>readPage\<close> of the same
  page (a hit) hands back whatever the caller's pointer held, here an address outside
  the pool, or slot 1 when the variable held that. The frame is pinned twice and the
  only disk access is the read of the first call.
\<close>

theorem readPage_hit_returns_callers_pointer:
  "returned (readPage pool2 1 1 Elsewhere) = Some (Slot 0)
   \<and> hashTable cached_once (1, 1) = Some 0
   \<and> returned (readPage cached_once 1 1 Elsewhere) = Some Elsewhere
   \<and> returned (readPage cached_once 1 1 (Slot 1)) = Some (Slot 1)
   \<and> pinCnt (bufDescTable (after (readPage cached_once 1 1 Elsewhere)) 0) = 2
   \<and> refbit (bufDescTable (after (readPage cached_once 1 1 Elsewhere)) 0)
   \<and> io (after (readPage cached_once 1 1 Elsewhere)) = [ReadPage 1 1]"
  by code_simp

text \<open>
  C2. The claim: the page number that \<open>file->allocatePage()\<close> assigns is the key of the
  hash table entry and of the frame's descriptor, and is returned through \<open>pageNo\<close>, so
  that a \<open>readPage\<close> of the returned number is a hit.
  The code at the claim's input: \<open>allocPage\<close> on the empty pool with the caller's
  \<open>pageNo\<close> holding 7. The file assigns page 1 and 1 is returned, with slot 0; but the
  entry and the descriptor are keyed by 7, there is no entry for page 1, and a
  \<open>readPage\<close> of page 1 is a miss that reads the file and takes frame 1.
\<close>

theorem allocPage_keys_by_callers_pageNo:
  "returned (allocPage pool2 1 7 Elsewhere) = Some (1, Slot 0)
   \<and> page_number (bufPool (after (allocPage pool2 1 7 Elsewhere)) 0) = 1
   \<and> hashTable (after (allocPage pool2 1 7 Elsewhere)) (1, 1) = None
   \<and> hashTable (after (allocPage pool2 1 7 Elsewhere)) (1, 7) = Some 0
   \<and> pageNo (bufDescTable (after (allocPage pool2 1 7 Elsewhere)) 0) = 7
   \<and> returned (readPage (after (allocPage pool2 1 7 Elsewhere)) 1 1 Elsewhere) = Some (Slot 1)
   \<and> io (after (readPage (after (allocPage pool2 1 7 Elsewhere)) 1 1 Elsewhere))
       = [AllocatePage 1 1, ReadPage 1 1]"
  by code_simp

text \<open>
  C3. The claim: \<open>flushFile\<close> succeeds when no frame of the file is pinned, writes back
  the dirty ones, removes their entries and resets them, so that no valid frame of the
  file remains.
  The code at the claim's input: page 1 of file 1 was fetched and unpinned, so frame 0
  is a valid frame of file 1 and no frame is pinned. \<open>flushFile\<close> throws
  \<open>BadBufferException\<close> and frame 0 is still valid afterwards. (By
  \<open>flushFile_valid_frame_throws\<close> it throws in every state with a valid frame of the
  file in the pool.)
\<close>

theorem flushFile_unpinned_throws_BadBuffer:
  "valid (bufDescTable unpinned_page 0) \<and> file_p (bufDescTable unpinned_page 0) = 1
   \<and> pinCnt (bufDescTable unpinned_page 0) = 0 \<and> pinCnt (bufDescTable unpinned_page 1) = 0
   \<and> thrown (flushFile unpinned_page 1) = Some BadBufferException
   \<and> valid (bufDescTable (after (flushFile unpinned_page 1)) 0)
   \<and> hashTable (after (flushFile unpinned_page 1)) (1, 1) = Some 0"
  by code_simp

text \<open>
  C4. The claim: \<open>allocBuf\<close> throws \<open>BufferExceededException\<close> exactly when every frame
  of the pool was met pinned in one sweep; a frame that is valid and unpinned, with its
  reference bit set, is the victim after its one grace pass.
  The code at the claim's input: a pool of two frames where frame 0 is pinned with its
  reference bit cleared and frame 1 is valid, unpinned and referenced (reached by
  fetching pages 1 and 2, unpinning 2, fetching 3 and unpinning 3). \<open>allocBuf\<close> counts
  frame 0 as pinned, clears the reference bit of frame 1, counts frame 0 again and
  throws, and so does the \<open>readPage\<close> of a fourth page. (That it throws when every
  frame of the pool is valid and pinned is \<open>allocBuf_all_pinned_throws\<close>.)
\<close>

theorem allocBuf_throws_with_unpinned_frame:
  "numBufs second_chance_state = 2
   \<and> valid (bufDescTable second_chance_state 0) \<and> pinCnt (bufDescTable second_chance_state 0) = 1
   \<and> \<not> refbit (bufDescTable second_chance_state 0)
   \<and> valid (bufDescTable second_chance_state 1) \<and> pinCnt (bufDescTable second_chance_state 1) = 0
   \<and> refbit (bufDescTable second_chance_state 1)
   \<and> clockHand second_chance_state = 1
   \<and> thrown (allocBuf second_chance_state) = Some BufferExceededException
   \<and> thrown (readPage second_chance_state 1 4 Elsewhere) = Some BufferExceededException"
  by code_simp

text \<open>
  C5. The claim: \<open>flushFile\<close> on a file with a pinned frame throws
  \<open>PagePinnedException\<close> and writes nothing.
  The code at the claim's input: frame 0 holds page 1 of file 1, unpinned, and frame 1
  holds page 2 of file 1, pinned. \<open>flushFile\<close> stops at frame 0 with
  \<open>BadBufferException\<close>; nothing is written.
\<close>

theorem flushFile_pinned_throws_BadBuffer:
  "file_p (bufDescTable one_pinned_one_not 0) = 1 \<and> valid (bufDescTable one_pinned_one_not 0)
   \<and> pinCnt (bufDescTable one_pinned_one_not 0) = 0
   \<and> file_p (bufDescTable one_pinned_one_not 1) = 1 \<and> valid (bufDescTable one_pinned_one_not 1)
   \<and> pinCnt (bufDescTable one_pinned_one_not 1) = 1
   \<and> thrown (flushFile one_pinned_one_not 1) = Some BadBufferException
   \<and> io (after (flushFile one_pinned_one_not 1)) = io one_pinned_one_not"
  by code_simp

text \<open>
  C6. The claim: only \<open>BufferExceededException\<close>, \<open>PageNotPinnedException\<close> and
  \<open>PagePinnedException\<close> leave a public function, and the \<open>HashNotFoundException\<close> of
  a failed lookup never does.
  The code at the claim's input: page 1 of file 1 was fetched and unpinned, so frame 0
  is a valid, unpinned frame of file 1. \<open>flushFile\<close> of file 1 throws
  \<open>BadBufferException\<close>, which is none of the three. By \<open>flushFile_BadBuffer\<close> this
  exception is only ever thrown on a valid, unpinned frame of the file, that is by the
  test of line 227, which its comment and the documentation of \<open>flushFile\<close> describe as a
  test for an invalid frame; by \<open>public_exceptions\<close> no exception but this one and
  the three of the claim leaves a public function.
\<close>

theorem BadBuffer_crosses_boundary:
  "valid (bufDescTable unpinned_page 0) \<and> file_p (bufDescTable unpinned_page 0) = 1
   \<and> pinCnt (bufDescTable unpinned_page 0) = 0
   \<and> call_thrown unpinned_page (Call_flushFile 1) = Some BadBufferException
   \<and> call_thrown unpinned_page (Call_flushFile 1)
     \<notin> {None, Some BufferExceededException, Some PageNotPinnedException,
         Some PagePinnedException}"
  by code_simp

text \<open>
  C7. In every state that a sequence of public calls reaches from the constructor, the
  frame that \<open>allocBuf\<close> returns has \<open>pinCnt = 0\<close> in the state \<open>allocBuf\<close> was called in
  (the sweep changes no \<open>pinCnt\<close>, so this is its value when it is selected); and a
  frame with \<open>pinCnt > 0\<close> is never the one returned and holds the same page (validity,
  file and page number) after a \<open>readPage\<close> or an \<open>allocPage\<close>, the two callers of
  \<open>allocBuf\<close>, whether they return or throw.
\<close>

theorem victim_never_pinned:
  assumes "s = execs (BufMgr_init bufs fs) cs"
  shows "(returned (allocBuf s) = Some frame \<longrightarrow> pinCnt (bufDescTable s frame) = 0)
       \<and> (0 < pinCnt (bufDescTable s i) \<longrightarrow>
            returned (allocBuf s) \<noteq> Some i
          \<and> held_page (exec s (Call_readPage f p page)) i = held_page s i
          \<and> held_page (exec s (Call_allocPage f p page)) i = held_page s i)"
proof -
  have inv: "pin_inv s"
    using assms reachable_inv by simp
  have "pinCnt (bufDescTable s frame) = 0" if "returned (allocBuf s) = Some frame"
    using allocBuf_inv [OF inv] that by (auto simp: returned_def split: sum.splits)
  moreover have "returned (allocBuf s) \<noteq> Some i
          \<and> held_page (exec s (Call_readPage f p page)) i = held_page s i
          \<and> held_page (exec s (Call_allocPage f p page)) i = held_page s i"
    if "0 < pinCnt (bufDescTable s i)"
    using allocBuf_held [OF inv that] readPage_held [OF inv that] allocPage_held [OF inv that]
    by simp
  ultimately show ?thesis
    by blast
qed

text \<open>
  Witness for C7: in a pool of one frame whose page was unpinned dirty, \<open>allocBuf\<close>
  returns frame 0, unpinned, after writing it back; and with page 1 pinned in frame 0
  of a pool of two, fetching or allocating another page leaves frame 0 with page 1.
\<close>

theorem victim_never_pinned_witness:
  "returned (allocBuf evictable_state) = Some 0
   \<and> pinCnt (bufDescTable evictable_state 0) = 0
   \<and> io (after (allocBuf evictable_state)) = [ReadPage 1 1, WritePage 1 \<lparr>page_number = 1, contents = []\<rparr>]
   \<and> 0 < pinCnt (bufDescTable cached_once 0)
   \<and> returned (allocBuf cached_once) \<noteq> Some 0
   \<and> held_page (exec cached_once (Call_readPage 1 2 Elsewhere)) 0 = held_page cached_once 0
   \<and> held_page (exec cached_once (Call_allocPage 1 2 Elsewhere)) 0 = held_page cached_once 0
   \<and> held_page cached_once 0 = (True, 1, 1)"
proof -
  have a: "evictable_state = execs (BufMgr_init 1 empty_files)
     [Call_readPage 1 1 Elsewhere, Call_unPinPage 1 1 True]"
    by (simp add: evictable_state_def pool1_def)
  have b: "cached_once = execs (BufMgr_init 2 empty_files) [Call_readPage 1 1 Elsewhere]"
    by (simp add: cached_once_def pool2_def)
  have r: "returned (allocBuf evictable_state) = Some 0"
    by code_simp
  have p: "0 < pinCnt (bufDescTable cached_once 0)"
    by code_simp
  have rest: "io (after (allocBuf evictable_state)) = [ReadPage 1 1, WritePage 1 \<lparr>page_number = 1, contents = []\<rparr>]
     \<and> held_page cached_once 0 = (True, 1, 1)"
    by code_simp
  from victim_never_pinned [OF a, of 0 0 1 1 Elsewhere] r
  have "pinCnt (bufDescTable evictable_state 0) = 0"
    by simp
  moreover from victim_never_pinned [OF b, of 0 0 1 2 Elsewhere] p
  have "returned (allocBuf cached_once) \<noteq> Some 0
   \<and> held_page (exec cached_once (Call_readPage 1 2 Elsewhere)) 0 = held_page cached_once 0
   \<and> held_page (exec cached_once (Call_allocPage 1 2 Elsewhere)) 0 = held_page cached_once 0"
    by simp
  ultimately show ?thesis
    using r p rest by simp
qed

text \<open>
  C8. \<open>unPinPage\<close> of a page without entry returns and changes nothing; of a page whose
  frame has \<open>pinCnt = 0\<close> it throws \<open>PageNotPinnedException\<close> and changes nothing;
  otherwise it returns with
  \<open>pinCnt\<close> one less and \<open>dirty\<close> set if the argument is true and unchanged if not, and
  nothing else changed. For a sequence of \<open>readPage\<close> and \<open>unPinPage\<close> calls on one page
  that runs to its end: if the page was cached at the start it stays in its frame and
  the pin count is the one at the start plus the fetches minus the unpins; if the
  sequence starts with the fetch that caches the page, the pin count at the end is the
  number of fetches minus the number of unpins.
\<close>

theorem unPinPage_pin_accounting:
  "(hashTable s (f, p) = None \<longrightarrow> unPinPage s f p d = Inr ((), s))
   \<and> (hashTable s (f, p) = Some i \<and> pinCnt (bufDescTable s i) = 0 \<longrightarrow>
        unPinPage s f p d = Inl (PageNotPinnedException, s))
   \<and> (hashTable s (f, p) = Some i \<and> 0 < pinCnt (bufDescTable s i) \<longrightarrow>
        unPinPage s f p d =
          Inr ((), s\<lparr>bufDescTable := (bufDescTable s)(i := (bufDescTable s i)
                 \<lparr>pinCnt := pinCnt (bufDescTable s i) - 1,
                  dirty := d \<or> dirty (bufDescTable s i)\<rparr>)\<rparr>))
   \<and> (hashTable s (f, p) = Some i \<and> pin_calls s f p cs = Inr s' \<longrightarrow>
        hashTable s' (f, p) = Some i
        \<and> int (pinCnt (bufDescTable s' i))
            = int (pinCnt (bufDescTable s i)) + int (fetches cs) - int (unpins cs))
   \<and> (hashTable s (f, p) = None \<and> pin_calls s f p (Fetch page # cs) = Inr s' \<longrightarrow>
        (\<exists>j. hashTable s' (f, p) = Some j
           \<and> int (pinCnt (bufDescTable s' j))
               = int (fetches (Fetch page # cs)) - int (unpins (Fetch page # cs))))"
proof -
  have seq: "hashTable s' (f, p) = Some i
        \<and> int (pinCnt (bufDescTable s' i))
            = int (pinCnt (bufDescTable s i)) + int (fetches cs) - int (unpins cs)"
    if "hashTable s (f, p) = Some i" "pin_calls s f p cs = Inr s'" for s i
    using pin_calls_count [OF that] by linarith
  have first: "\<exists>j. hashTable s' (f, p) = Some j
           \<and> int (pinCnt (bufDescTable s' j))
               = int (fetches (Fetch page # cs)) - int (unpins (Fetch page # cs))"
    if none: "hashTable s (f, p) = None" and run: "pin_calls s f p (Fetch page # cs) = Inr s'"
  proof -
    from run obtain v s1 where r: "readPage s f p page = Inr (v, s1)"
      and rest: "pin_calls s1 f p cs = Inr s'"
      by (auto split: sum.splits)
    from readPage_miss [OF none r] obtain j where
      j: "hashTable s1 (f, p) = Some j" "pinCnt (bufDescTable s1 j) = 1"
      by blast
    from seq [OF j(1) rest] j(2) show ?thesis
      by auto
  qed
  have absent: "hashTable s (f, p) = None \<longrightarrow> unPinPage s f p d = Inr ((), s)"
    by (simp add: unPinPage_cases)
  have zero: "hashTable s (f, p) = Some i \<and> pinCnt (bufDescTable s i) = 0 \<longrightarrow>
        unPinPage s f p d = Inl (PageNotPinnedException, s)"
    by (simp add: unPinPage_cases)
  have pinned: "hashTable s (f, p) = Some i \<and> 0 < pinCnt (bufDescTable s i) \<longrightarrow>
        unPinPage s f p d =
          Inr ((), s\<lparr>bufDescTable := (bufDescTable s)(i := (bufDescTable s i)
                 \<lparr>pinCnt := pinCnt (bufDescTable s i) - 1,
                  dirty := d \<or> dirty (bufDescTable s i)\<rparr>)\<rparr>)"
    by (simp add: unPinPage_cases)
  show ?thesis
    using absent zero pinned seq [of s i] first by blast
qed

text \<open>
  Witness for C8: the empty pool (no entry), a page fetched and unpinned (pin count 0),
  a page fetched once (pin count 1), and two sequences of fetches and unpins.
\<close>

theorem unPinPage_pin_accounting_witness:
  "hashTable pool2 (1, 1) = None
   \<and> unPinPage pool2 1 1 True = Inr ((), pool2)
   \<and> hashTable unpinned_page (1, 1) = Some 0 \<and> pinCnt (bufDescTable unpinned_page 0) = 0
   \<and> unPinPage unpinned_page 1 1 False = Inl (PageNotPinnedException, unpinned_page)
   \<and> hashTable cached_once (1, 1) = Some 0 \<and> pinCnt (bufDescTable cached_once 0) = 1
   \<and> unPinPage cached_once 1 1 True =
       Inr ((), cached_once\<lparr>bufDescTable := (bufDescTable cached_once)
              (0 := (bufDescTable cached_once 0)\<lparr>pinCnt := 0, dirty := True\<rparr>)\<rparr>)
   \<and> completes (pin_calls cached_once 1 1 [Fetch Elsewhere, Unpin True, Fetch Elsewhere, Unpin False])
   \<and> pinCnt (bufDescTable (final_state
        (pin_calls cached_once 1 1 [Fetch Elsewhere, Unpin True, Fetch Elsewhere, Unpin False])) 0) = 1
   \<and> completes (pin_calls pool2 1 1 [Fetch Elsewhere, Fetch Elsewhere, Unpin False])
   \<and> (\<exists>j. hashTable (final_state
              (pin_calls pool2 1 1 [Fetch Elsewhere, Fetch Elsewhere, Unpin False])) (1, 1) = Some j
          \<and> pinCnt (bufDescTable (final_state
              (pin_calls pool2 1 1 [Fetch Elsewhere, Fetch Elsewhere, Unpin False])) j) = 1)"
proof -
  let ?cs = "[Fetch Elsewhere, Unpin True, Fetch Elsewhere, Unpin False]"
  let ?ds = "[Fetch Elsewhere, Unpin False]"
  have none: "hashTable pool2 (1, 1) = None"
    by code_simp
  have zero: "hashTable unpinned_page (1, 1) = Some 0 \<and> pinCnt (bufDescTable unpinned_page 0) = 0"
    by code_simp
  have one: "hashTable cached_once (1, 1) = Some 0" "pinCnt (bufDescTable cached_once 0) = 1"
    by code_simp+
  have c1: "completes (pin_calls cached_once 1 1 ?cs)"
    by code_simp
  have c2: "completes (pin_calls pool2 1 1 (Fetch Elsewhere # ?ds))"
    by code_simp
  define s1 where "s1 = final_state (pin_calls cached_once 1 1 ?cs)"
  define s2 where "s2 = final_state (pin_calls pool2 1 1 (Fetch Elsewhere # ?ds))"
  have run1: "pin_calls cached_once 1 1 ?cs = Inr s1"
    unfolding s1_def by (rule completes_final_state [OF c1])
  have run2: "pin_calls pool2 1 1 (Fetch Elsewhere # ?ds) = Inr s2"
    unfolding s2_def by (rule completes_final_state [OF c2])
  have a: "unPinPage pool2 1 1 True = Inr ((), pool2)"
    using unPinPage_pin_accounting [of pool2 1 1 True 0 "[]" pool2 Elsewhere] none by blast
  have b: "unPinPage unpinned_page 1 1 False = Inl (PageNotPinnedException, unpinned_page)"
    using unPinPage_pin_accounting [of unpinned_page 1 1 False 0 "[]" pool2 Elsewhere] zero by blast
  have c: "unPinPage cached_once 1 1 True =
       Inr ((), cached_once\<lparr>bufDescTable := (bufDescTable cached_once)
              (0 := (bufDescTable cached_once 0)\<lparr>pinCnt := 0, dirty := True\<rparr>)\<rparr>)"
    using unPinPage_pin_accounting [of cached_once 1 1 True 0 "[]" pool2 Elsewhere] one by simp
  have "int (pinCnt (bufDescTable s1 0))
          = int (pinCnt (bufDescTable cached_once 0)) + int (fetches ?cs) - int (unpins ?cs)"
    using unPinPage_pin_accounting [of cached_once 1 1 True 0 ?cs s1] one(1) run1 by blast
  then have d: "pinCnt (bufDescTable s1 0) = 1"
    using one(2) by simp
  have "\<exists>j. hashTable s2 (1, 1) = Some j
          \<and> int (pinCnt (bufDescTable s2 j))
              = int (fetches (Fetch Elsewhere # ?ds)) - int (unpins (Fetch Elsewhere # ?ds))"
    using unPinPage_pin_accounting [of pool2 1 1 True 0 ?ds s2 Elsewhere] none run2 by blast
  then have e: "\<exists>j. hashTable s2 (1, 1) = Some j \<and> pinCnt (bufDescTable s2 j) = 1"
    by simp
  show ?thesis
    using none zero one a b c c1 c2 d e unfolding s1_def s2_def by blast
qed

text \<open>
  C9. \<open>disposePage\<close> never throws. It makes exactly one call on the file, the
  \<open>deletePage\<close> of the page, and so writes nothing. The entry of the page is removed; if
  there was one, its frame is reset by \<open>Clear()\<close> whatever its \<open>dirty\<close> and \<open>pinCnt\<close>
  were, and if there was none, no descriptor changes.
\<close>

theorem disposePage_discards:
  "thrown (disposePage s f p) = None
   \<and> io (after (disposePage s f p)) = io s @ [DeletePage f p]
   \<and> hashTable (after (disposePage s f p)) = (hashTable s)((f, p) := None)
   \<and> (hashTable s (f, p) = None \<longrightarrow>
        bufDescTable (after (disposePage s f p)) = bufDescTable s)
   \<and> (hashTable s (f, p) = Some i \<longrightarrow>
        bufDescTable (after (disposePage s f p))
          = (bufDescTable s)(i := BufDesc_Clear (bufDescTable s i))
      \<and> \<not> valid (bufDescTable (after (disposePage s f p)) i))"
  by (cases "hashTable s (f, p)")
     (auto simp: disposePage_def lookup_ht_def thrown_def after_def File_deletePage_def
                 remove_ht_def BufDesc_Clear_def)

text \<open>
  Witness for C9: a page that is not cached, and a page that is cached, dirty and
  pinned.
\<close>

theorem disposePage_discards_witness:
  "hashTable pool2 (1, 1) = None
   \<and> thrown (disposePage pool2 1 1) = None
   \<and> io (after (disposePage pool2 1 1)) = [DeletePage 1 1]
   \<and> bufDescTable (after (disposePage pool2 1 1)) = bufDescTable pool2
   \<and> hashTable dirty_pinned_page (1, 1) = Some 0
   \<and> dirty (bufDescTable dirty_pinned_page 0) \<and> pinCnt (bufDescTable dirty_pinned_page 0) = 1
   \<and> thrown (disposePage dirty_pinned_page 1 1) = None
   \<and> io (after (disposePage dirty_pinned_page 1 1)) = [ReadPage 1 1, DeletePage 1 1]
   \<and> hashTable (after (disposePage dirty_pinned_page 1 1)) (1, 1) = None
   \<and> \<not> valid (bufDescTable (after (disposePage dirty_pinned_page 1 1)) 0)"
proof -
  have n: "hashTable pool2 (1, 1) = None"
    by code_simp
  have c: "hashTable dirty_pinned_page (1, 1) = Some 0"
    by code_simp
  have pre: "dirty (bufDescTable dirty_pinned_page 0) \<and> pinCnt (bufDescTable dirty_pinned_page 0) = 1
     \<and> io dirty_pinned_page = [ReadPage 1 1] \<and> io pool2 = []"
    by code_simp
  from disposePage_discards [of pool2 1 1 0] n
  have "thrown (disposePage pool2 1 1) = None
   \<and> io (after (disposePage pool2 1 1)) = io pool2 @ [DeletePage 1 1]
   \<and> bufDescTable (after (disposePage pool2 1 1)) = bufDescTable pool2"
    by simp
  moreover from disposePage_discards [of dirty_pinned_page 1 1 0] c
  have "thrown (disposePage dirty_pinned_page 1 1) = None
   \<and> io (after (disposePage dirty_pinned_page 1 1)) = io dirty_pinned_page @ [DeletePage 1 1]
   \<and> hashTable (after (disposePage dirty_pinned_page 1 1)) (1, 1) = None
   \<and> \<not> valid (bufDescTable (after (disposePage dirty_pinned_page 1 1)) 0)"
    by (simp add: BufDesc_Clear_def)
  ultimately show ?thesis
    using n c pre by simp
qed

text \<open>
  C10. \<open>unPinPage\<close> with \<open>dirty = true\<close> on a cached page whose \<open>pinCnt\<close> is 0 throws
  \<open>PageNotPinnedException\<close> and leaves the manager's state as it was: the dirty flag is
  not set, \<open>pinCnt\<close> stays 0 and the hash table is untouched.
\<close>

theorem unPinPage_unpinned_is_atomic:
  assumes "hashTable s (f, p) = Some i" and "pinCnt (bufDescTable s i) = 0"
  shows "unPinPage s f p True = Inl (PageNotPinnedException, s)"
  using assms by (simp add: unPinPage_def lookup_ht_def)

text \<open>Witness for C10: page 1 of file 1, fetched and unpinned clean.\<close>

theorem unPinPage_unpinned_is_atomic_witness:
  "hashTable unpinned_page (1, 1) = Some 0 \<and> pinCnt (bufDescTable unpinned_page 0) = 0
   \<and> \<not> dirty (bufDescTable unpinned_page 0)
   \<and> unPinPage unpinned_page 1 1 True = Inl (PageNotPinnedException, unpinned_page)"
proof -
  have h: "hashTable unpinned_page (1, 1) = Some 0"
    by code_simp
  have z: "pinCnt (bufDescTable unpinned_page 0) = 0"
    by code_simp
  have d: "\<not> dirty (bufDescTable unpinned_page 0)"
    by code_simp
  from unPinPage_unpinned_is_atomic [OF h z] h z d show ?thesis
    by simp
qed

end
